theory Spec2Isabelle
  imports Main "HOL-Library.Multiset"
begin

section \<open>Socket message handlers: the reader\<close>

text \<open>
  The development follows \<^verbatim>\<open>socket-message-handlers.ts\<close>: the class
  \<^verbatim>\<open>WebSocketMessageReader\<close>, the class \<^verbatim>\<open>WebSocketMessageWriter\<close>, the function
  \<^verbatim>\<open>createConnection\<close>, and the plugin channel adapter \<^verbatim>\<open>PluginWebSocketChannel\<close>.

  Everything runs on one thread, so every method is a function from the object's fields to
  the new fields, the list of events it fires and the exception it throws, if any.
  A listener is identified by a value of a type \<open>'cb\<close> (JavaScript compares functions by
  identity); invoking it is recorded, and the listeners are taken not to call back into the
  reader and not to throw.
\<close>

subsection \<open>JavaScript values carried as errors\<close>

text \<open>
  The socket's error payload has type \<^verbatim>\<open>unknown\<close>. The replay loop only tests it for
  truthiness. Numbers are integers here (no \<^verbatim>\<open>NaN\<close>); \<open>JSErrorObject name message\<close> is an
  object with the two fields of the error built by the close handler.
\<close>

datatype js_value =
    JSUndefined
  | JSNull
  | JSBoolean bool
  | JSNumber int
  | JSString string
  | JSErrorObject string string

fun js_truthy :: "js_value \<Rightarrow> bool" where
  "js_truthy JSUndefined = False"
| "js_truthy JSNull = False"
| "js_truthy (JSBoolean b) = b"
| "js_truthy (JSNumber n) = (n \<noteq> 0)"
| "js_truthy (JSString s) = (s \<noteq> [])"
| "js_truthy (JSErrorObject n m) = True"

text \<open>Decimal rendering of an integer, as \<^verbatim>\<open>'' + code\<close> gives it for an integral number.\<close>

definition digit_char :: "nat \<Rightarrow> char" where
  "digit_char n = ''0123456789'' ! n"

fun nat_to_string :: "nat \<Rightarrow> string" where
  "nat_to_string n =
     (if n < 10 then [digit_char n] else nat_to_string (n div 10) @ [digit_char (n mod 10)])"

declare nat_to_string.simps [simp del]

definition number_to_string :: "int \<Rightarrow> string" where
  "number_to_string i =
     (if i < 0 then CHR ''-'' # nat_to_string (nat (- i)) else nat_to_string (nat i))"

subsection \<open>The reader's fields\<close>

datatype reader_state = Initial | Listening | Closed

text \<open>
  An element of \<^verbatim>\<open>events\<close> is an object \<^verbatim>\<open>{ message?: string, error?: unknown }\<close>: an absent
  field is \<open>None\<close>.
\<close>

record event =
  message :: "string option"
  error :: "js_value option"

record 'cb reader =
  state :: reader_state
  callback :: "'cb option"
  events :: "event list"

datatype exn = SyntaxError | TypeError

datatype ('cb, 'd) effect =
    Callback 'cb 'd
  | ErrorEvent js_value
  | CloseEvent
  | Raised exn

type_synonym ('cb, 'd) outcome = "'cb reader \<times> ('cb, 'd) effect list \<times> exn option"

definition new_reader :: "'cb reader" where
  "new_reader = \<lparr>state = Initial, callback = None, events = []\<rparr>"

subsection \<open>The reader's methods\<close>

text \<open>
  \<open>parse\<close> stands for \<^verbatim>\<open>JSON.parse\<close>: \<open>None\<close> is the \<^verbatim>\<open>SyntaxError\<close> it throws.
  \<^verbatim>\<open>events.splice(0, 0, e)\<close> inserts \<open>e\<close> at index 0, the head of the list.
  \<^verbatim>\<open>this.callback!(data)\<close> with no callback stored throws a \<^verbatim>\<open>TypeError\<close>.
\<close>

definition readMessage :: "(string \<Rightarrow> 'd option) \<Rightarrow> 'cb reader \<Rightarrow> string \<Rightarrow> ('cb, 'd) outcome" where
  "readMessage parse r msg =
     (if state r = Initial then
        (r\<lparr>events := \<lparr>message = Some msg, error = None\<rparr> # events r\<rparr>, [], None)
      else if state r = Listening then
        (case parse msg of
           None \<Rightarrow> (r, [], Some SyntaxError)
         | Some data \<Rightarrow>
             (case callback r of
                None \<Rightarrow> (r, [], Some TypeError)
              | Some cb \<Rightarrow> (r, [Callback cb data], None)))
      else (r, [], None))"

text \<open>\<^verbatim>\<open>super.fireError\<close> and \<^verbatim>\<open>super.fireClose\<close> fire the error and the close event.\<close>

definition fireError :: "'cb reader \<Rightarrow> js_value \<Rightarrow> ('cb, 'd) outcome" where
  "fireError r err =
     (if state r = Initial then
        (r\<lparr>events := \<lparr>message = None, error = Some err\<rparr> # events r\<rparr>, [], None)
      else if state r = Listening then (r, [ErrorEvent err], None)
      else (r, [], None))"

definition fireClose :: "'cb reader \<Rightarrow> ('cb, 'd) outcome" where
  "fireClose r =
     (if state r = Initial then
        (r\<lparr>events := \<lparr>message = None, error = None\<rparr> # events r, state := Closed\<rparr>, [], None)
      else if state r = Listening then (r\<lparr>state := Closed\<rparr>, [CloseEvent], None)
      else (r\<lparr>state := Closed\<rparr>, [], None))"

text \<open>
  The body of the replay loop: \<^verbatim>\<open>if (event.message) ... else if (event.error) ... else ...\<close>.
  Both tests are truthiness tests: an absent field and an empty string fail the first, an
  absent field and a falsy value fail the second.
\<close>

definition message_truthy :: "event \<Rightarrow> bool" where
  "message_truthy e = (case message e of None \<Rightarrow> False | Some m \<Rightarrow> m \<noteq> [])"

definition error_truthy :: "event \<Rightarrow> bool" where
  "error_truthy e = (case error e of None \<Rightarrow> False | Some v \<Rightarrow> js_truthy v)"

definition replay_event :: "(string \<Rightarrow> 'd option) \<Rightarrow> 'cb reader \<Rightarrow> event \<Rightarrow> ('cb, 'd) outcome" where
  "replay_event parse r e =
     (if message_truthy e then readMessage parse r (case message e of Some m \<Rightarrow> m | None \<Rightarrow> [])
      else if error_truthy e then fireError r (case error e of Some v \<Rightarrow> v | None \<Rightarrow> JSUndefined)
      else fireClose r)"

text \<open>
  \<^verbatim>\<open>while (this.events.length !== 0) { const event = this.events.pop()!; ... }\<close>:
  \<^verbatim>\<open>pop\<close> takes the last element. The loop is not total on every reader (in state
  \<open>Initial\<close> each iteration would put an event back), so it returns an option; an exception
  thrown by the body leaves the loop.
\<close>

partial_function (option) replay ::
  "(string \<Rightarrow> 'd option) \<Rightarrow> 'cb reader \<Rightarrow> ('cb, 'd) effect list \<Rightarrow> ('cb, 'd) outcome option" where
  "replay parse r acc =
     (if events r = [] then Some (r, acc, None)
      else
        (case replay_event parse (r\<lparr>events := butlast (events r)\<rparr>) (last (events r)) of
           (r', out, Some x) \<Rightarrow> Some (r', acc @ out, Some x)
         | (r', out, None) \<Rightarrow> replay parse r' (acc @ out)))"

declare replay.simps [code]

definition listen :: "(string \<Rightarrow> 'd option) \<Rightarrow> 'cb reader \<Rightarrow> 'cb \<Rightarrow> ('cb, 'd) outcome option" where
  "listen parse r cb =
     (if state r = Initial then replay parse (r\<lparr>state := Listening, callback := Some cb\<rparr>) []
      else Some (r, [], None))"

text \<open>
  The handle returned by \<^verbatim>\<open>listen(callback)\<close> closes over \<^verbatim>\<open>callback\<close>;
  \<open>listen_dispose r cb\<close> is its \<^verbatim>\<open>dispose()\<close>.
\<close>

definition listen_dispose :: "'cb reader \<Rightarrow> 'cb \<Rightarrow> 'cb reader" where
  "listen_dispose r cb = (if callback r = Some cb then r\<lparr>callback := None\<rparr> else r)"

subsection \<open>The handlers the constructor subscribes to the socket\<close>

definition close_error :: "int \<Rightarrow> string \<Rightarrow> js_value" where
  "close_error code reason =
     JSErrorObject (number_to_string code)
       (''Error during socket reconnect: code = '' @ number_to_string code @ '', reason = '' @ reason)"

definition socket_onClose :: "'cb reader \<Rightarrow> int \<Rightarrow> string \<Rightarrow> ('cb, 'd) outcome" where
  "socket_onClose r code reason =
     (if code \<noteq> 1000 then
        (case fireError r (close_error code reason) of
           (r1, out1, Some x) \<Rightarrow> (r1, out1, Some x)
         | (r1, out1, None) \<Rightarrow>
             (case fireClose r1 of (r2, out2, x) \<Rightarrow> (r2, out1 @ out2, x)))
      else fireClose r)"

text \<open>What can happen to a reader: the three socket events, \<^verbatim>\<open>listen\<close>, and the handle's
  \<^verbatim>\<open>dispose\<close>.\<close>

datatype 'cb reader_op =
    SocketMessage string
  | SocketError js_value
  | SocketClose int string
  | Listen 'cb
  | Dispose 'cb

fun step :: "(string \<Rightarrow> 'd option) \<Rightarrow> 'cb reader \<Rightarrow> 'cb reader_op \<Rightarrow> ('cb, 'd) outcome option" where
  "step parse r (SocketMessage m) = Some (readMessage parse r m)"
| "step parse r (SocketError e) = Some (fireError r e)"
| "step parse r (SocketClose code reason) = Some (socket_onClose r code reason)"
| "step parse r (Listen cb) = listen parse r cb"
| "step parse r (Dispose cb) = Some (listen_dispose r cb, [], None)"

text \<open>
  A run performs the operations one after the other. An exception leaves the operation
  that threw it (it is recorded as \<open>Raised\<close>) and the reader goes on living.
\<close>

fun raised :: "exn option \<Rightarrow> ('cb, 'd) effect list" where
  "raised None = []"
| "raised (Some x) = [Raised x]"

fun run :: "(string \<Rightarrow> 'd option) \<Rightarrow> 'cb reader \<Rightarrow> 'cb reader_op list
    \<Rightarrow> ('cb reader \<times> ('cb, 'd) effect list) option" where
  "run parse r [] = Some (r, [])"
| "run parse r (op # ops) =
     (case step parse r op of
        None \<Rightarrow> None
      | Some (r', out, x) \<Rightarrow>
          (case run parse r' ops of
             None \<Rightarrow> None
           | Some (r'', out') \<Rightarrow> Some (r'', out @ raised x @ out')))"

section \<open>Socket message handlers: the writer\<close>

text \<open>
  \<open>stringify\<close> stands for \<^verbatim>\<open>JSON.stringify\<close> (\<open>Inl\<close> is the value it throws) and
  \<open>socket_send\<close> for the socket's \<^verbatim>\<open>send\<close>, which acts on the socket's own state \<open>'s\<close> and
  may throw. \<^verbatim>\<open>errorCount\<close> is a JavaScript number; it is a natural number here (it would
  stop growing only after \<open>2 ^ 53\<close> failures).

  \<^verbatim>\<open>this.fireError(e, msg, this.errorCount)\<close> in the \<^verbatim>\<open>catch\<close> block is the method inherited
  from \<^verbatim>\<open>AbstractMessageWriter\<close>, a class of the library
  \<^verbatim>\<open>vscode-languageserver-protocol\<close> that is not among the sources. The writer takes it as
  the parameter \<open>fireError\<close>: given the three arguments it either throws (\<open>Inl\<close>) or fires
  error events, each a triple of an error, a message and a number (\<open>Inr\<close>).
  \<^verbatim>\<open>write\<close> is an \<^verbatim>\<open>async\<close> function: what is thrown inside it and not caught rejects the
  promise it returns.
\<close>

record writer =
  errorCount :: nat


definition new_writer :: writer where
  "new_writer = \<lparr>errorCount = 0\<rparr>"









section \<open>Connections\<close>

text \<open>
  Modelled from the spec: \<^verbatim>\<open>DisposableCollection\<close> and \<^verbatim>\<open>Disposable.create\<close> (imported from
  \<^verbatim>\<open>'../../common'\<close>) are not among the sources. The specification calls the collection a
  disposal group: callbacks are registered in it through a removable handle, the first close
  from either side tears the group down, firing the registered callbacks, and a second close
  is a no-op. The order in which the callbacks fire is not specified; registration order is
  taken. A disposable made by \<^verbatim>\<open>Disposable.create(callback)\<close> is identified with its
  callback.
\<close>

record 'k DisposableCollection =
  disposables :: "'k list"

definition DisposableCollection_new :: "'k DisposableCollection" where
  "DisposableCollection_new = \<lparr>disposables = []\<rparr>"

definition DisposableCollection_push :: "'k DisposableCollection \<Rightarrow> 'k \<Rightarrow> 'k DisposableCollection" where
  "DisposableCollection_push dc d = dc\<lparr>disposables := disposables dc @ [d]\<rparr>"

definition DisposableCollection_dispose :: "'k DisposableCollection \<Rightarrow> 'k DisposableCollection \<times> 'k list" where
  "DisposableCollection_dispose dc = (dc\<lparr>disposables := []\<rparr>, disposables dc)"

text \<open>
  \<^verbatim>\<open>createConnection(reader, writer, onDispose)\<close>: the object returned, with the collection
  \<^verbatim>\<open>disposeOnClose\<close> its methods close over. \<^verbatim>\<open>dispose\<close> only calls \<^verbatim>\<open>onDispose\<close>, which is
  the caller's; it and the \<^verbatim>\<open>extensions\<close> are left out.
\<close>

record ('cb, 'k) connection =
  reader :: "'cb reader"
  writer :: writer
  disposeOnClose :: "'k DisposableCollection"

definition createConnection :: "'cb reader \<Rightarrow> writer \<Rightarrow> ('cb, 'k) connection" where
  "createConnection r w = \<lparr>reader = r, writer = w, disposeOnClose = DisposableCollection_new\<rparr>"

text \<open>
  \<^verbatim>\<open>onClose(callback)\<close> pushes the callback; the handlers subscribed to the reader's and to
  the writer's close event both dispose the collection. The callbacks invoked are returned.
\<close>

definition onClose :: "('cb, 'k) connection \<Rightarrow> 'k \<Rightarrow> ('cb, 'k) connection" where
  "onClose c cb = c\<lparr>disposeOnClose := DisposableCollection_push (disposeOnClose c) cb\<rparr>"

definition reader_onClose :: "('cb, 'k) connection \<Rightarrow> ('cb, 'k) connection \<times> 'k list" where
  "reader_onClose c =
     (case DisposableCollection_dispose (disposeOnClose c) of
        (dc, fired) \<Rightarrow> (c\<lparr>disposeOnClose := dc\<rparr>, fired))"

definition writer_onClose :: "('cb, 'k) connection \<Rightarrow> ('cb, 'k) connection \<times> 'k list" where
  "writer_onClose c =
     (case DisposableCollection_dispose (disposeOnClose c) of
        (dc, fired) \<Rightarrow> (c\<lparr>disposeOnClose := dc\<rparr>, fired))"

datatype close_source = ReaderClose | WriterClose

fun close_connection :: "('cb, 'k) connection \<Rightarrow> close_source \<Rightarrow> ('cb, 'k) connection \<times> 'k list" where
  "close_connection c ReaderClose = reader_onClose c"
| "close_connection c WriterClose = writer_onClose c"

fun close_all :: "('cb, 'k) connection \<Rightarrow> close_source list \<Rightarrow> ('cb, 'k) connection \<times> 'k list" where
  "close_all c [] = (c, [])"
| "close_all c (x # xs) =
     (case close_connection c x of
        (c', fired) \<Rightarrow> (case close_all c' xs of (c'', fired') \<Rightarrow> (c'', fired @ fired')))"

text \<open>
  \<^verbatim>\<open>forward(to, map)\<close>, the same in \<^verbatim>\<open>createConnection\<close> and in \<^verbatim>\<open>PluginConnection\<close>. The
  listener is the closure \<^verbatim>\<open>input => { const output = map(input); to.writer.write(output); }\<close>;
  its value is the call it makes, on the writer of the connection \<open>to\<close>. An absent
  \<^verbatim>\<open>map\<close> (\<open>map'\<close> here) is the identity.
\<close>

datatype ('c, 'm) writer_call = WriterWrite 'c 'm

definition forward_listener :: "'c \<Rightarrow> ('m \<Rightarrow> 'm) \<Rightarrow> 'm \<Rightarrow> ('c, 'm) writer_call" where
  "forward_listener to map' input = (let output = map' input in WriterWrite to output)"

definition forward ::
  "(string \<Rightarrow> 'm option) \<Rightarrow> ('m \<Rightarrow> ('c, 'm) writer_call, 'k) connection \<Rightarrow> 'c \<Rightarrow> ('m \<Rightarrow> 'm) option
    \<Rightarrow> (('m \<Rightarrow> ('c, 'm) writer_call, 'k) connection \<times> ('m \<Rightarrow> ('c, 'm) writer_call, 'm) effect list \<times> exn option) option" where
  "forward parse c to map' =
     (case listen parse (reader c)
             (forward_listener to (case map' of None \<Rightarrow> (\<lambda>message. message) | Some f \<Rightarrow> f)) of
        None \<Rightarrow> None
      | Some (r', out, x) \<Rightarrow> Some (c\<lparr>reader := r'\<rparr>, out, x))"

text \<open>The calls made by the listeners invoked in a trace of the reader, in order.\<close>

fun calls_made :: "('d \<Rightarrow> 'a, 'd) effect list \<Rightarrow> 'a list" where
  "calls_made [] = []"
| "calls_made (Callback cb d # out) = cb d # calls_made out"
| "calls_made (ErrorEvent v # out) = calls_made out"
| "calls_made (CloseEvent # out) = calls_made out"
| "calls_made (Raised x # out) = calls_made out"

text \<open>
  What happens to a forwarding connection: \<^verbatim>\<open>forward\<close> is called, or the socket of its
  reader delivers a message. A run collects the calls made on writers.
\<close>

datatype ('c, 'm) connection_op =
    Forward 'c "('m \<Rightarrow> 'm) option"
  | Receive string

fun connection_step ::
  "(string \<Rightarrow> 'm option) \<Rightarrow> ('m \<Rightarrow> ('c, 'm) writer_call, 'k) connection \<Rightarrow> ('c, 'm) connection_op
    \<Rightarrow> (('m \<Rightarrow> ('c, 'm) writer_call, 'k) connection \<times> ('m \<Rightarrow> ('c, 'm) writer_call, 'm) effect list \<times> exn option) option" where
  "connection_step parse c (Forward to map') = forward parse c to map'"
| "connection_step parse c (Receive m) =
     (case readMessage parse (reader c) m of (r', out, x) \<Rightarrow> Some (c\<lparr>reader := r'\<rparr>, out, x))"

fun connection_run ::
  "(string \<Rightarrow> 'm option) \<Rightarrow> ('m \<Rightarrow> ('c, 'm) writer_call, 'k) connection \<Rightarrow> ('c, 'm) connection_op list
    \<Rightarrow> (('m \<Rightarrow> ('c, 'm) writer_call, 'k) connection \<times> ('c, 'm) writer_call list) option" where
  "connection_run parse c [] = Some (c, [])"
| "connection_run parse c (op # ops) =
     (case connection_step parse c op of
        None \<Rightarrow> None
      | Some (c', out, x) \<Rightarrow>
          (case connection_run parse c' ops of
             None \<Rightarrow> None
           | Some (c'', calls) \<Rightarrow> Some (c'', calls_made out @ calls)))"

text \<open>A buffered event that the replay loop treats as a message or as an error.\<close>

definition event_truthy :: "event \<Rightarrow> bool" where
  "event_truthy e = (message_truthy e \<or> error_truthy e)"

section \<open>The plugin channel\<close>

text \<open>
  \<^verbatim>\<open>PluginWebSocketChannel\<close>: \<^verbatim>\<open>send(content)\<close> calls \<^verbatim>\<open>this.connection.writer.write\<close> on the
  message it builds; \<^verbatim>\<open>onMessage(cb)\<close> hands \<^verbatim>\<open>this.connection.reader.listen\<close> the listener
  \<^verbatim>\<open>(message: PluginMessage) => cb(message.content)\<close>. The reader and the writer of a plugin
  connection are not among the sources; the two functions below are the argument of
  \<^verbatim>\<open>write\<close> and the listener.
\<close>

record PluginMessage =
  jsonrpc :: string
  content :: string

definition PluginWebSocketChannel_send :: "string \<Rightarrow> PluginMessage" where
  "PluginWebSocketChannel_send content' = \<lparr>jsonrpc = ''0.0'', content = content'\<rparr>"

definition PluginWebSocketChannel_onMessage :: "(string \<Rightarrow> 'a) \<Rightarrow> PluginMessage \<Rightarrow> 'a" where
  "PluginWebSocketChannel_onMessage cb = (\<lambda>message. cb (content message))"

section \<open>Properties of the reader\<close>

subsection \<open>The replay loop\<close>

lemma replay_Nil: "events r = [] \<Longrightarrow> replay parse r acc = Some (r, acc, None)"
  by (subst replay.simps) simp

lemma replay_snoc:
  "events r = es @ [e] \<Longrightarrow>
   replay parse r acc =
     (case replay_event parse (r\<lparr>events := es\<rparr>) e of
        (r', out, Some x) \<Rightarrow> Some (r', acc @ out, Some x)
      | (r', out, None) \<Rightarrow> replay parse r' (acc @ out))"
  by (subst replay.simps) simp

lemma reader_Closed_eq: "state r = Closed \<Longrightarrow> r\<lparr>state := Closed\<rparr> = r"
  by (cases r) simp

lemma replay_event_Closed:
  "state r = Closed \<Longrightarrow> replay_event parse r e = (r, [], None)"
  by (simp add: replay_event_def readMessage_def fireError_def fireClose_def reader_Closed_eq)

lemma replay_Closed:
  "state r = Closed \<Longrightarrow> replay parse r acc = Some (r\<lparr>events := []\<rparr>, acc, None)"
proof (induction "events r" arbitrary: r rule: rev_induct)
  case Nil
  then show ?case by (simp add: replay_Nil)
next
  case (snoc e es)
  have ev: "events r = es @ [e]" using snoc.hyps(2) by simp
  have "replay parse (r\<lparr>events := es\<rparr>) acc = Some (r\<lparr>events := es\<rparr>\<lparr>events := []\<rparr>, acc, None)"
    by (rule snoc.hyps(1)) (simp_all add: snoc.prems)
  then show ?case
    by (simp add: replay_snoc [OF ev] replay_event_Closed snoc.prems)
qed

lemma replay_event_message:
  "state r = Listening \<Longrightarrow> callback r = Some cb \<Longrightarrow> m \<noteq> [] \<Longrightarrow> parse m = Some d \<Longrightarrow>
   replay_event parse r \<lparr>message = Some m, error = None\<rparr> = (r, [Callback cb d], None)"
  by (simp add: replay_event_def message_truthy_def readMessage_def)

lemma replay_messages:
  "state r = Listening \<Longrightarrow> callback r = Some cb \<Longrightarrow>
   events r = map (\<lambda>m. \<lparr>message = Some m, error = None\<rparr>) (rev ms) \<Longrightarrow>
   [] \<notin> set ms \<Longrightarrow> map parse ms = map Some ds \<Longrightarrow>
   replay parse r acc = Some (r\<lparr>events := []\<rparr>, acc @ map (Callback cb) ds, None)"
proof (induction ms arbitrary: r acc ds)
  case Nil
  then show ?case by (simp add: replay_Nil)
next
  case (Cons m ms)
  obtain d ds' where ds: "ds = d # ds'" "parse m = Some d" "map parse ms = map Some ds'"
    using Cons.prems(5) by (cases ds) auto
  let ?es = "map (\<lambda>m. \<lparr>message = Some m, error = None\<rparr>) (rev ms)"
  have ev: "events r = ?es @ [\<lparr>message = Some m, error = None\<rparr>]"
    using Cons.prems(3) by simp
  have m: "m \<noteq> []" using Cons.prems(4) by auto
  have step: "replay_event parse (r\<lparr>events := ?es\<rparr>) \<lparr>message = Some m, error = None\<rparr>
      = (r\<lparr>events := ?es\<rparr>, [Callback cb d], None)"
    by (rule replay_event_message) (simp_all add: Cons.prems m ds)
  have "replay parse (r\<lparr>events := ?es\<rparr>) (acc @ [Callback cb d])
      = Some (r\<lparr>events := ?es\<rparr>\<lparr>events := []\<rparr>, (acc @ [Callback cb d]) @ map (Callback cb) ds', None)"
    by (rule Cons.IH) (use Cons.prems ds in simp_all)
  then show ?case
    by (simp add: replay_snoc [OF ev] step ds)
qed

lemma run_append:
  "run parse r (ops1 @ ops2) =
     (case run parse r ops1 of
        None \<Rightarrow> None
      | Some (r1, out1) \<Rightarrow>
          (case run parse r1 ops2 of
             None \<Rightarrow> None
           | Some (r2, out2) \<Rightarrow> Some (r2, out1 @ out2)))"
  by (induction ops1 arbitrary: r) (auto split: option.splits prod.splits)

lemma run_buffer_messages:
  "state r = Initial \<Longrightarrow>
   run parse r (map SocketMessage ms)
     = Some (r\<lparr>events := map (\<lambda>m. \<lparr>message = Some m, error = None\<rparr>) (rev ms) @ events r\<rparr>, [])"
proof (induction ms arbitrary: r)
  case Nil
  then show ?case by simp
next
  case (Cons m ms)
  let ?r = "r\<lparr>events := \<lparr>message = Some m, error = None\<rparr> # events r\<rparr>"
  have "run parse ?r (map SocketMessage ms)
     = Some (?r\<lparr>events := map (\<lambda>m. \<lparr>message = Some m, error = None\<rparr>) (rev ms) @ events ?r\<rparr>, [])"
    by (rule Cons.IH) (simp add: Cons.prems)
  then show ?case by (simp add: readMessage_def Cons.prems)
qed

lemma run_live_messages:
  "state r = Listening \<Longrightarrow> callback r = Some cb \<Longrightarrow> map parse ms = map Some ds \<Longrightarrow>
   run parse r (map SocketMessage ms) = Some (r, map (Callback cb) ds)"
proof (induction ms arbitrary: ds)
  case Nil
  then show ?case by simp
next
  case (Cons m ms)
  obtain d ds' where ds: "ds = d # ds'" "parse m = Some d" "map parse ms = map Some ds'"
    using Cons.prems(3) by (cases ds) auto
  have "run parse r (map SocketMessage ms) = Some (r, map (Callback cb) ds')"
    by (rule Cons.IH) (use Cons.prems ds in simp_all)
  then show ?case by (simp add: readMessage_def Cons.prems ds)
qed

subsection \<open>Buffered messages are replayed in arrival order\<close>

text \<open>
  C1 (as amended). Let \<open>ms\<close> be the texts of the socket messages that arrive at a new reader
  before \<^verbatim>\<open>listen\<close>, each of them non-empty and decoded by \<^verbatim>\<open>JSON.parse\<close> (to \<open>ds\<close>), and let
  \<open>ms'\<close> be texts that arrive after \<^verbatim>\<open>listen(cb)\<close>, each decoded (to \<open>ds'\<close>). Then the run
  invokes \<open>cb\<close> once for each message of \<open>ms\<close>, in arrival order, then once for each
  message of \<open>ms'\<close>, and does nothing else; the buffer is empty afterwards.
\<close>

theorem buffered_messages_replayed_in_order:
  assumes "[] \<notin> set ms"
    and "map parse ms = map Some ds"
    and "map parse ms' = map Some ds'"
  shows "run parse new_reader (map SocketMessage ms @ Listen cb # map SocketMessage ms')
     = Some (\<lparr>state = Listening, callback = Some cb, events = []\<rparr>,
             map (Callback cb) ds @ map (Callback cb) ds')"
proof -
  let ?ev = "map (\<lambda>m. \<lparr>message = Some m, error = None\<rparr>) (rev ms)"
  let ?r1 = "\<lparr>state = Initial, callback = None, events = ?ev\<rparr> :: 'b reader"
  let ?r2 = "\<lparr>state = Listening, callback = Some cb, events = []\<rparr> :: 'b reader"
  have buf: "run parse new_reader (map SocketMessage ms) = Some (?r1, [])"
    using run_buffer_messages [of new_reader parse ms] by (simp add: new_reader_def)
  have rep: "replay parse (?r1\<lparr>state := Listening, callback := Some cb\<rparr>) []
      = Some (?r1\<lparr>state := Listening, callback := Some cb\<rparr>\<lparr>events := []\<rparr>, [] @ map (Callback cb) ds, None)"
    by (rule replay_messages [where ms = ms]) (use assms in simp_all)
  have lis: "listen parse ?r1 cb = Some (?r2, map (Callback cb) ds, None)"
    using rep by (simp add: listen_def)
  have live: "run parse ?r2 (map SocketMessage ms') = Some (?r2, map (Callback cb) ds')"
    by (rule run_live_messages) (use assms in simp_all)
  show ?thesis
    by (simp add: run_append buf lis live)
qed

theorem buffered_messages_replayed_in_order_witness:
  "[] \<notin> set [''1'', ''[2]'']
   \<and> map Some [''1'', ''[2]''] = map Some [''1'', ''[2]'']
   \<and> map Some [''3''] = map Some [''3'']
   \<and> run Some new_reader
         (map SocketMessage [''1'', ''[2]''] @ Listen (7::nat) # map SocketMessage [''3''])
       = Some (\<lparr>state = Listening, callback = Some 7, events = []\<rparr>,
               map (Callback 7) [''1'', ''[2]''] @ map (Callback 7) [''3''])"
  using buffered_messages_replayed_in_order
    [where ms = "[''1'', ''[2]'']" and parse = Some and ds = "[''1'', ''[2]'']"
       and ms' = "[''3'']" and ds' = "[''3'']" and cb = "7::nat"]
  by simp

text \<open>
  The claim as first stated speaks of every sequence of socket messages. A message whose
  text does not decode is buffered like any other, and \<^verbatim>\<open>listen\<close> then throws the decoder's
  \<^verbatim>\<open>SyntaxError\<close> without invoking the listener (here the decoder rejects the text \<open>''{''\<close>,
  as \<^verbatim>\<open>JSON.parse\<close> does, and returns any other text as it is). A message whose text is empty
  does not even reach the decoder: \<^verbatim>\<open>listen\<close> fires the close event in its place.
\<close>

theorem buffered_messages_replayed_in_order_counterexample:
  "run (\<lambda>s. if s = ''{'' then None else Some s) new_reader [SocketMessage ''{'', Listen (7::nat)]
     = Some (\<lparr>state = Listening, callback = Some 7, events = []\<rparr>, [Raised SyntaxError])
   \<and> run (\<lambda>s. if s = ''{'' then None else Some s) new_reader [SocketMessage [], Listen (7::nat)]
     = Some (\<lparr>state = Closed, callback = Some 7, events = []\<rparr>, [CloseEvent])"
  by code_simp

subsection \<open>The close event fires at most once\<close>

lemma replay_event_step:
  assumes "state r \<noteq> Initial" and "replay_event parse r e = (r', out, x)"
  shows "events r' = events r \<and> state r' \<noteq> Initial
       \<and> count_list out CloseEvent \<le> 1
       \<and> (count_list out CloseEvent = 1 \<longrightarrow> state r' = Closed)"
  using assms
  by (cases "state r")
     (auto simp: replay_event_def readMessage_def fireError_def fireClose_def
           split: if_splits option.splits)

lemma replay_close_once:
  "state r \<noteq> Initial \<Longrightarrow>
   \<exists>r' out x. replay parse r acc = Some (r', acc @ out, x) \<and> state r' \<noteq> Initial
     \<and> count_list out CloseEvent \<le> 1
     \<and> (count_list out CloseEvent = 1 \<longrightarrow> state r' = Closed)"
proof (induction "events r" arbitrary: r acc rule: rev_induct)
  case Nil
  then show ?case by (simp add: replay_Nil)
next
  case (snoc e es)
  have ev: "events r = es @ [e]" using snoc.hyps(2) by simp
  obtain r1 out1 x1 where re: "replay_event parse (r\<lparr>events := es\<rparr>) e = (r1, out1, x1)"
    by (cases "replay_event parse (r\<lparr>events := es\<rparr>) e") auto
  have s1: "events r1 = es" "state r1 \<noteq> Initial" "count_list out1 CloseEvent \<le> 1"
    "count_list out1 CloseEvent = 1 \<longrightarrow> state r1 = Closed"
    using replay_event_step [OF _ re] snoc.prems by simp_all
  show ?case
  proof (cases x1)
    case (Some x)
    then show ?thesis
      using s1 by (simp add: replay_snoc [OF ev] re)
  next
    case None
    show ?thesis
    proof (cases "state r1 = Closed")
      case True
      then show ?thesis
        using s1 None by (simp add: replay_snoc [OF ev] re replay_Closed)
    next
      case False
      then have c0: "count_list out1 CloseEvent = 0" using s1 by auto
      obtain r' out2 x where
        "replay parse r1 (acc @ out1) = Some (r', (acc @ out1) @ out2, x)"
        "state r' \<noteq> Initial" "count_list out2 CloseEvent \<le> 1"
        "count_list out2 CloseEvent = 1 \<longrightarrow> state r' = Closed"
        using snoc.hyps(1) [of r1 "acc @ out1"] s1 by auto
      then show ?thesis
        using None c0 by (simp add: replay_snoc [OF ev] re)
    qed
  qed
qed

lemma socket_onClose_cases:
  "socket_onClose r code reason =
     (if state r = Initial then
        (r\<lparr>events := \<lparr>message = None, error = None\<rparr> #
              (if code \<noteq> 1000 then [\<lparr>message = None, error = Some (close_error code reason)\<rparr>] else [])
              @ events r, state := Closed\<rparr>, [], None)
      else if state r = Listening then
        (r\<lparr>state := Closed\<rparr>,
         (if code \<noteq> 1000 then [ErrorEvent (close_error code reason)] else []) @ [CloseEvent], None)
      else (r, [], None))"
  by (cases "state r") (simp_all add: socket_onClose_def fireError_def fireClose_def reader_Closed_eq)

lemma step_close_once:
  "\<exists>r' out x. step parse r op = Some (r', out, x)
     \<and> count_list out CloseEvent \<le> 1
     \<and> (count_list out CloseEvent = 1 \<longrightarrow> state r' = Closed)
     \<and> (state r = Closed \<longrightarrow> state r' = Closed \<and> out = [] \<and> x = None)"
proof (cases op)
  case (SocketMessage m)
  then show ?thesis
    by (auto simp: readMessage_def split: option.splits)
next
  case (SocketError v)
  then show ?thesis by (auto simp: fireError_def)
next
  case (SocketClose code reason)
  then show ?thesis by (auto simp: socket_onClose_cases)
next
  case (Listen cb)
  show ?thesis
  proof (cases "state r = Initial")
    case True
    obtain r' out x where
      "replay parse (r\<lparr>state := Listening, callback := Some cb\<rparr>) [] = Some (r', [] @ out, x)"
      "count_list out CloseEvent \<le> 1" "count_list out CloseEvent = 1 \<longrightarrow> state r' = Closed"
      using replay_close_once [of "r\<lparr>state := Listening, callback := Some cb\<rparr>" parse "[]"] by auto
    then show ?thesis using True Listen by (simp add: listen_def)
  next
    case False
    then show ?thesis using Listen by (simp add: listen_def)
  qed
next
  case (Dispose cb)
  then show ?thesis by (simp add: listen_dispose_def)
qed

lemma count_list_raised: "count_list (raised x) CloseEvent = 0"
  by (cases x) simp_all

lemma run_close_once:
  "\<exists>r' out. run parse r ops = Some (r', out)
     \<and> count_list out CloseEvent \<le> 1
     \<and> (count_list out CloseEvent = 1 \<longrightarrow> state r' = Closed)
     \<and> (state r = Closed \<longrightarrow> state r' = Closed \<and> out = [])"
proof (induction ops arbitrary: r)
  case Nil
  then show ?case by simp
next
  case (Cons op ops)
  obtain r1 out1 x1 where st: "step parse r op = Some (r1, out1, x1)"
    "count_list out1 CloseEvent \<le> 1" "count_list out1 CloseEvent = 1 \<longrightarrow> state r1 = Closed"
    "state r = Closed \<longrightarrow> state r1 = Closed \<and> out1 = [] \<and> x1 = None"
    using step_close_once [of parse r op] by blast
  obtain r2 out2 where rn: "run parse r1 ops = Some (r2, out2)"
    "count_list out2 CloseEvent \<le> 1" "count_list out2 CloseEvent = 1 \<longrightarrow> state r2 = Closed"
    "state r1 = Closed \<longrightarrow> state r2 = Closed \<and> out2 = []"
    using Cons.IH [of r1] by blast
  have run: "run parse r (op # ops) = Some (r2, out1 @ raised x1 @ out2)"
    by (simp add: st rn)
  show ?case
    unfolding run using st(2-4) rn(2-4)
    by (cases "count_list out1 CloseEvent = 1") (auto simp: count_list_raised)
qed

subsection \<open>More on the replay loop\<close>

lemma replay_messages_prefix:
  "state r = Listening \<Longrightarrow> callback r = Some cb \<Longrightarrow>
   events r = rest @ map (\<lambda>m. \<lparr>message = Some m, error = None\<rparr>) (rev ms) \<Longrightarrow>
   [] \<notin> set ms \<Longrightarrow> map parse ms = map Some ds \<Longrightarrow>
   replay parse r acc = replay parse (r\<lparr>events := rest\<rparr>) (acc @ map (Callback cb) ds)"
proof (induction ms arbitrary: r acc ds)
  case Nil
  have "r\<lparr>events := rest\<rparr> = r" using Nil.prems(3) by (cases r) simp
  then show ?case using Nil.prems(5) by simp
next
  case (Cons m ms)
  obtain d ds' where ds: "ds = d # ds'" "parse m = Some d" "map parse ms = map Some ds'"
    using Cons.prems(5) by (cases ds) auto
  let ?es = "rest @ map (\<lambda>m. \<lparr>message = Some m, error = None\<rparr>) (rev ms)"
  have ev: "events r = ?es @ [\<lparr>message = Some m, error = None\<rparr>]"
    using Cons.prems(3) by simp
  have m: "m \<noteq> []" using Cons.prems(4) by auto
  have step: "replay_event parse (r\<lparr>events := ?es\<rparr>) \<lparr>message = Some m, error = None\<rparr>
      = (r\<lparr>events := ?es\<rparr>, [Callback cb d], None)"
    by (rule replay_event_message) (simp_all add: Cons.prems m ds)
  have "replay parse (r\<lparr>events := ?es\<rparr>) (acc @ [Callback cb d])
      = replay parse (r\<lparr>events := ?es\<rparr>\<lparr>events := rest\<rparr>) ((acc @ [Callback cb d]) @ map (Callback cb) ds')"
    by (rule Cons.IH) (use Cons.prems ds in simp_all)
  then show ?case
    by (simp add: replay_snoc [OF ev] step ds)
qed

lemma replay_event_empty_message:
  "replay_event parse r \<lparr>message = Some [], error = None\<rparr> = fireClose r"
  by (simp add: replay_event_def message_truthy_def error_truthy_def)

lemma replay_event_close_marker:
  "replay_event parse r \<lparr>message = None, error = None\<rparr> = fireClose r"
  by (simp add: replay_event_def message_truthy_def error_truthy_def)

subsection \<open>An empty message text is replayed as a close\<close>

text \<open>
  C10. The entry buffered for a message whose text is the empty string passes neither
  truthiness test of the replay loop, exactly as the close marker \<^verbatim>\<open>{}\<close>: the loop takes the
  close path on it. So when the messages \<open>ms\<close> (non-empty, decoded to \<open>ds\<close>), then a message
  with empty text, then any messages \<open>ms'\<close> arrive at a new reader before \<^verbatim>\<open>listen(cb)\<close>, the
  call delivers \<open>ds\<close>, fires the close event in place of the empty message, leaves the reader
  closed and drops \<open>ms'\<close>.
\<close>

theorem empty_message_replayed_as_close:
  assumes "[] \<notin> set ms" and "map parse ms = map Some ds"
  shows "replay_event parse r \<lparr>message = Some [], error = None\<rparr>
           = replay_event parse r \<lparr>message = None, error = None\<rparr>
       \<and> replay_event parse r \<lparr>message = Some [], error = None\<rparr> = fireClose r
       \<and> run parse new_reader
           (map SocketMessage ms @ SocketMessage [] # map SocketMessage ms' @ [Listen cb])
         = Some (\<lparr>state = Closed, callback = Some cb, events = []\<rparr>,
                 map (Callback cb) ds @ [CloseEvent])"
proof -
  let ?msg = "\<lambda>m. \<lparr>message = Some m, error = None\<rparr>"
  let ?rest = "map ?msg (rev ms') @ [?msg []]"
  let ?ev = "map ?msg (rev ms') @ ?msg [] # map ?msg (rev ms)"
  let ?r1 = "\<lparr>state = Initial, callback = None, events = ?ev\<rparr>"
  let ?r2 = "\<lparr>state = Listening, callback = Some cb, events = ?ev\<rparr>"
  have buf: "run parse new_reader (map SocketMessage (ms @ [] # ms')) = Some (?r1, [])"
    using run_buffer_messages [of new_reader parse "ms @ [] # ms'"] by (simp add: new_reader_def)
  have r1: "replay parse ?r2 [] = replay parse (?r2\<lparr>events := ?rest\<rparr>) ([] @ map (Callback cb) ds)"
    by (rule replay_messages_prefix [where ms = ms]) (use assms in simp_all)
  let ?r3 = "\<lparr>state = Listening, callback = Some cb, events = ?rest\<rparr>"
  have ev: "events ?r3 = map ?msg (rev ms') @ [?msg []]" by simp
  have fc: "replay_event parse (?r3\<lparr>events := map ?msg (rev ms')\<rparr>) (?msg [])
      = (\<lparr>state = Closed, callback = Some cb, events = map ?msg (rev ms')\<rparr>, [CloseEvent], None)"
    by (simp add: replay_event_empty_message fireClose_def)
  have r2: "replay parse ?r3 (map (Callback cb) ds)
      = Some (\<lparr>state = Closed, callback = Some cb, events = []\<rparr>, map (Callback cb) ds @ [CloseEvent], None)"
    by (subst replay_snoc [OF ev], subst fc) (simp add: replay_Closed)
  have lis: "listen parse ?r1 cb
      = Some (\<lparr>state = Closed, callback = Some cb, events = []\<rparr>, map (Callback cb) ds @ [CloseEvent], None)"
    using r1 r2 by (simp add: listen_def)
  have buf': "run parse new_reader (map SocketMessage ms @ SocketMessage [] # map SocketMessage ms')
      = Some (?r1, [])"
    using buf by simp
  have "run parse new_reader
          ((map SocketMessage ms @ SocketMessage [] # map SocketMessage ms') @ [Listen cb])
      = Some (\<lparr>state = Closed, callback = Some cb, events = []\<rparr>, map (Callback cb) ds @ [CloseEvent])"
    by (subst run_append, subst buf') (simp add: lis)
  then show ?thesis
    by (simp add: replay_event_empty_message replay_event_close_marker)
qed

theorem empty_message_replayed_as_close_witness:
  "[] \<notin> set [''1''] \<and> map Some [''1''] = map Some [''1'']
   \<and> run Some new_reader
       (map SocketMessage [''1''] @ SocketMessage [] # map SocketMessage [''2''] @ [Listen (7::nat)])
     = Some (\<lparr>state = Closed, callback = Some 7, events = []\<rparr>,
             map (Callback 7) [''1''] @ [CloseEvent])"
proof -
  have h1: "[] \<notin> set [''1'']" by simp
  have h2: "map Some [''1''] = map Some [''1'']" by simp
  note t = empty_message_replayed_as_close
    [OF h1 h2, where r = new_reader and ms' = "[''2'']" and cb = "7::nat"]
  show ?thesis using h1 h2 t by blast
qed

subsection \<open>A socket close before \<^verbatim>\<open>listen\<close>\<close>

text \<open>
  C2. A message \<open>m\<close> arrives at a new reader, then the socket closes normally, then
  \<^verbatim>\<open>listen(cb)\<close> is called. The close handler buffers a close marker and sets the state to
  \<open>Closed\<close> at once; \<^verbatim>\<open>listen\<close> replays only in state \<open>Initial\<close>, so it does nothing: \<open>cb\<close>
  is never invoked, no close event fires, and both buffered entries stay in the buffer.
\<close>

theorem close_before_listen_discards_buffer:
  "run parse new_reader [SocketMessage m, SocketClose 1000 reason, Listen cb]
     = Some (\<lparr>state = Closed, callback = None,
              events = [\<lparr>message = None, error = None\<rparr>, \<lparr>message = Some m, error = None\<rparr>]\<rparr>, [])"
  by (simp add: new_reader_def readMessage_def socket_onClose_cases listen_def)

subsection \<open>The close code\<close>

text \<open>
  C3. When the socket closes while the reader is listening, code 1000 fires the close event
  only; any other code fires an error event first, whose error has the code's decimal
  rendering as its name and in its message, and then the close event. The reader is closed
  afterwards.
\<close>

theorem close_code_decides_error:
  assumes "state r = Listening"
  shows "socket_onClose r code reason =
     (r\<lparr>state := Closed\<rparr>,
      (if code = 1000 then [CloseEvent]
       else [ErrorEvent (JSErrorObject (number_to_string code)
               (''Error during socket reconnect: code = '' @ number_to_string code
                  @ '', reason = '' @ reason)),
             CloseEvent]),
      None)"
  using assms by (simp add: socket_onClose_cases close_error_def)

lemma number_to_string_1006: "number_to_string 1006 = ''1006''"
  by code_simp

theorem close_code_decides_error_witness:
  "state \<lparr>state = Listening, callback = Some (7::nat), events = []\<rparr> = Listening
   \<and> socket_onClose \<lparr>state = Listening, callback = Some (7::nat), events = []\<rparr> 1006 ''gone''
       = (\<lparr>state = Closed, callback = Some 7, events = []\<rparr>,
          [ErrorEvent (JSErrorObject ''1006''
             ''Error during socket reconnect: code = 1006, reason = gone''), CloseEvent], None)
   \<and> socket_onClose \<lparr>state = Listening, callback = Some (7::nat), events = []\<rparr> 1000 ''''
       = (\<lparr>state = Closed, callback = Some 7, events = []\<rparr>, [CloseEvent], None)"
  using close_code_decides_error
      [of "\<lparr>state = Listening, callback = Some (7::nat), events = []\<rparr>" 1006 "''gone''"]
    close_code_decides_error
      [of "\<lparr>state = Listening, callback = Some (7::nat), events = []\<rparr>" 1000 "''''"]
  by (simp add: number_to_string_1006)

subsection \<open>Silence after close\<close>

text \<open>
  C4. From a closed reader, every sequence of socket events, \<^verbatim>\<open>listen\<close> calls and handle
  disposals runs to its end, fires nothing at all (no listener invocation, no error event,
  no close event, no exception) and leaves the reader closed. From any reader, every such
  sequence runs to its end and fires the close event at most once.
\<close>

theorem closed_reader_is_silent:
  "(state r = Closed \<longrightarrow> (\<exists>r'. run parse r ops = Some (r', []) \<and> state r' = Closed))
   \<and> (\<exists>r' out. run parse r ops = Some (r', out) \<and> count_list out CloseEvent \<le> 1)"
  using run_close_once [of parse r ops] by auto

theorem closed_reader_is_silent_witness:
  "state \<lparr>state = Closed, callback = Some (7::nat), events = []\<rparr> = Closed
   \<and> run Some \<lparr>state = Closed, callback = Some (7::nat), events = []\<rparr>
        [SocketMessage ''1'', SocketError (JSString ''x''), SocketClose 1006 ''gone'', Listen 8]
      = Some (\<lparr>state = Closed, callback = Some 7, events = []\<rparr>, [])"
  using closed_reader_is_silent
    [of "\<lparr>state = Closed, callback = Some (7::nat), events = []\<rparr>" Some
        "[SocketMessage ''1'', SocketError (JSString ''x''), SocketClose 1006 ''gone'', Listen 8]"]
  by (simp add: readMessage_def fireError_def socket_onClose_cases listen_def)

subsection \<open>A second \<^verbatim>\<open>listen\<close>\<close>

text \<open>
  C9. On a reader that is listening with the listener \<open>cb1\<close>, \<^verbatim>\<open>listen(cb2)\<close> with another
  listener \<open>cb2\<close> changes nothing and fires nothing; disposing the handle it returns changes
  nothing either, while disposing a handle made for \<open>cb1\<close> clears the stored callback. After
  both calls the messages that arrive (decoded to \<open>ds\<close>) are all delivered to \<open>cb1\<close>, in
  order, and none to \<open>cb2\<close>.
\<close>

theorem second_listen_is_ignored:
  assumes "state r = Listening" and "callback r = Some cb1" and "cb2 \<noteq> cb1"
    and "map parse ms = map Some ds"
  shows "listen parse r cb2 = Some (r, [], None)
       \<and> listen_dispose r cb2 = r
       \<and> listen_dispose r cb1 = r\<lparr>callback := None\<rparr>
       \<and> run parse r (Listen cb2 # Dispose cb2 # map SocketMessage ms)
           = Some (r, map (Callback cb1) ds)"
proof -
  have "run parse r (map SocketMessage ms) = Some (r, map (Callback cb1) ds)"
    by (rule run_live_messages) (use assms in simp_all)
  then show ?thesis
    using assms by (simp add: listen_def listen_dispose_def)
qed

theorem second_listen_is_ignored_witness:
  "state \<lparr>state = Listening, callback = Some (1::nat), events = []\<rparr> = Listening
   \<and> callback \<lparr>state = Listening, callback = Some (1::nat), events = []\<rparr> = Some 1
   \<and> (2::nat) \<noteq> 1
   \<and> map Some [''1'', ''2''] = map Some [''1'', ''2'']
   \<and> listen Some \<lparr>state = Listening, callback = Some (1::nat), events = []\<rparr> 2
       = Some (\<lparr>state = Listening, callback = Some 1, events = []\<rparr>, [], None)
   \<and> listen_dispose \<lparr>state = Listening, callback = Some (1::nat), events = []\<rparr> 2
       = \<lparr>state = Listening, callback = Some 1, events = []\<rparr>
   \<and> listen_dispose \<lparr>state = Listening, callback = Some (1::nat), events = []\<rparr> 1
       = \<lparr>state = Listening, callback = Some (1::nat), events = []\<rparr>\<lparr>callback := None\<rparr>
   \<and> run Some \<lparr>state = Listening, callback = Some (1::nat), events = []\<rparr>
        (Listen 2 # Dispose 2 # map SocketMessage [''1'', ''2''])
       = Some (\<lparr>state = Listening, callback = Some 1, events = []\<rparr>, map (Callback 1) [''1'', ''2''])"
proof -
  let ?r = "\<lparr>state = Listening, callback = Some (1::nat), events = []\<rparr>"
  have h1: "state ?r = Listening" by simp
  have h2: "callback ?r = Some 1" by simp
  have h3: "(2::nat) \<noteq> 1" by simp
  have h4: "map Some [''1'', ''2''] = map Some [''1'', ''2'']" by simp
  note t = second_listen_is_ignored [OF h1 h2 h3 h4]
  show ?thesis using h1 h2 h3 h4 t by blast
qed

section \<open>Properties of connections\<close>

subsection \<open>Forwarding\<close>

lemma replay_event_truthy:
  assumes "state r = Listening" and "event_truthy e"
  shows "\<exists>out x. replay_event parse r e = (r, out, x)"
  using assms
  by (auto simp: event_truthy_def replay_event_def readMessage_def fireError_def
           split: option.splits if_splits)

lemma replay_truthy:
  "state r = Listening \<Longrightarrow> list_all event_truthy (events r) \<Longrightarrow>
   \<exists>es out x. replay parse r acc = Some (r\<lparr>events := es\<rparr>, out, x)"
proof (induction "events r" arbitrary: r acc rule: rev_induct)
  case Nil
  then have "r\<lparr>events := []\<rparr> = r" by (cases r) simp
  then show ?case using Nil by (metis replay_Nil)
next
  case (snoc e es)
  have ev: "events r = es @ [e]" using snoc.hyps(2) by simp
  have tr: "list_all event_truthy es" "event_truthy e" using snoc.prems(2) ev by simp_all
  obtain out1 x1 where re: "replay_event parse (r\<lparr>events := es\<rparr>) e = (r\<lparr>events := es\<rparr>, out1, x1)"
    using replay_event_truthy [of "r\<lparr>events := es\<rparr>" e parse] snoc.prems(1) tr by auto
  show ?case
  proof (cases x1)
    case (Some x)
    then show ?thesis by (simp add: replay_snoc [OF ev] re) blast
  next
    case None
    obtain es' out x where
      "replay parse (r\<lparr>events := es\<rparr>) (acc @ out1) = Some (r\<lparr>events := es\<rparr>\<lparr>events := es'\<rparr>, out, x)"
      using snoc.hyps(1) [of "r\<lparr>events := es\<rparr>" "acc @ out1"] snoc.prems(1) tr by auto
    then show ?thesis using None by (simp add: replay_snoc [OF ev] re) blast
  qed
qed

lemma connection_run_live:
  assumes "state (reader c) = Listening" and "callback (reader c) = Some cb"
    and "map parse ms = map Some ds"
  shows "connection_run parse c (map Receive ms) = Some (c, map cb ds)"
  using assms(3)
proof (induction ms arbitrary: ds)
  case Nil
  then show ?case by simp
next
  case (Cons m ms)
  obtain d ds' where ds: "ds = d # ds'" "parse m = Some d" "map parse ms = map Some ds'"
    using Cons.prems by (cases ds) auto
  have "connection_run parse c (map Receive ms) = Some (c, map cb ds')"
    by (rule Cons.IH) (rule ds)
  then show ?case using assms(1,2) ds by (simp add: readMessage_def)
qed

lemma forward_registers:
  assumes "state (reader c) = Initial" and "list_all event_truthy (events (reader c))"
  shows "\<exists>c' out x. forward parse c to mp = Some (c', out, x)
     \<and> state (reader c') = Listening
     \<and> callback (reader c')
         = Some (forward_listener to (case mp of None \<Rightarrow> (\<lambda>message. message) | Some f \<Rightarrow> f))"
proof -
  let ?cb = "forward_listener to (case mp of None \<Rightarrow> (\<lambda>message. message) | Some f \<Rightarrow> f)"
  let ?r = "(reader c)\<lparr>state := Listening, callback := Some ?cb\<rparr>"
  obtain es out x where "replay parse ?r [] = Some (?r\<lparr>events := es\<rparr>, out, x)"
    using replay_truthy [of ?r parse "[]"] assms(2) by auto
  then show ?thesis using assms(1) by (simp add: forward_def listen_def)
qed

text \<open>
  C6 (as amended). Let the reader of the connection \<open>c\<close> be in state \<open>Initial\<close>, with no
  empty message and no falsy error in its buffer (a new connection has an empty buffer).
  Then \<^verbatim>\<open>c.forward(to)\<close> returns, and afterwards the messages received on \<open>c\<close>'s reader
  (decoded to \<open>ds\<close>) cause exactly the calls \<^verbatim>\<open>to.writer.write(m)\<close> for \<open>m\<close> in \<open>ds\<close>, in
  arrival order; after \<^verbatim>\<open>c.forward(to, f)\<close> the calls are \<^verbatim>\<open>to.writer.write(f(m))\<close>.
\<close>

theorem forward_writes_each_message:
  assumes "state (reader c) = Initial" and "list_all event_truthy (events (reader c))"
    and "map parse ms = map Some ds"
  shows "(\<exists>c' out x. forward parse c to None = Some (c', out, x)
            \<and> connection_run parse c' (map Receive ms) = Some (c', map (WriterWrite to) ds))
       \<and> (\<exists>c' out x. forward parse c to (Some f) = Some (c', out, x)
            \<and> connection_run parse c' (map Receive ms)
                = Some (c', map (\<lambda>m. WriterWrite to (f m)) ds))"
proof
  obtain c' out x where f: "forward parse c to None = Some (c', out, x)"
    "state (reader c') = Listening"
    "callback (reader c') = Some (forward_listener to (\<lambda>message. message))"
    using forward_registers [OF assms(1,2), of parse to None] by auto
  have eq: "forward_listener to (\<lambda>message. message) = WriterWrite to"
    by (rule ext) (simp add: forward_listener_def)
  have "connection_run parse c' (map Receive ms) = Some (c', map (WriterWrite to) ds)"
    using connection_run_live [OF f(2,3) assms(3)] unfolding eq .
  with f(1) show "\<exists>c' out x. forward parse c to None = Some (c', out, x)
      \<and> connection_run parse c' (map Receive ms) = Some (c', map (WriterWrite to) ds)"
    by blast
next
  obtain c' out x where f: "forward parse c to (Some f) = Some (c', out, x)"
    "state (reader c') = Listening"
    "callback (reader c') = Some (forward_listener to f)"
    using forward_registers [OF assms(1,2), of parse to "Some f"] by auto
  have eq: "forward_listener to f = (\<lambda>m. WriterWrite to (f m))"
    by (rule ext) (simp add: forward_listener_def)
  have "connection_run parse c' (map Receive ms) = Some (c', map (\<lambda>m. WriterWrite to (f m)) ds)"
    using connection_run_live [OF f(2,3) assms(3)] unfolding eq .
  with f(1) show "\<exists>c' out x. forward parse c to (Some f) = Some (c', out, x)
      \<and> connection_run parse c' (map Receive ms) = Some (c', map (\<lambda>m. WriterWrite to (f m)) ds)"
    by blast
qed

theorem forward_writes_each_message_witness:
  "state (reader (createConnection new_reader new_writer
      :: (string \<Rightarrow> (nat, string) writer_call, nat) connection)) = Initial
   \<and> list_all event_truthy (events (reader (createConnection new_reader new_writer
      :: (string \<Rightarrow> (nat, string) writer_call, nat) connection)))
   \<and> map Some [''1'', ''2''] = map Some [''1'', ''2'']
   \<and> (\<exists>c' out x. forward Some (createConnection new_reader new_writer
            :: (string \<Rightarrow> (nat, string) writer_call, nat) connection) 3 None = Some (c', out, x)
          \<and> connection_run Some c' (map Receive [''1'', ''2''])
              = Some (c', map (WriterWrite 3) [''1'', ''2'']))
   \<and> (\<exists>c' out x. forward Some (createConnection new_reader new_writer
            :: (string \<Rightarrow> (nat, string) writer_call, nat) connection) 3 (Some rev) = Some (c', out, x)
          \<and> connection_run Some c' (map Receive [''1'', ''2''])
              = Some (c', map (\<lambda>m. WriterWrite 3 (rev m)) [''1'', ''2'']))"
proof -
  let ?c = "createConnection new_reader new_writer :: (string \<Rightarrow> (nat, string) writer_call, nat) connection"
  have h1: "state (reader ?c) = Initial"
    by (simp add: createConnection_def new_reader_def)
  have h2: "list_all event_truthy (events (reader ?c))"
    by (simp add: createConnection_def new_reader_def)
  have h3: "map Some [''1'', ''2''] = map Some [''1'', ''2'']" by simp
  note t = forward_writes_each_message [OF h1 h2 h3, where to = 3 and f = rev]
  show ?thesis using h1 h2 h3 t by blast
qed

text \<open>
  The claim as first stated speaks of every connection. On a connection whose reader
  already has a listener (here: it already forwards to connection 1), \<^verbatim>\<open>forward\<close> to
  connection 2 registers nothing: the message received next is written to the writer of
  connection 1 only.
\<close>

theorem forward_writes_each_message_counterexample:
  "map_option snd
     (connection_run Some (createConnection new_reader new_writer :: (string \<Rightarrow> (nat, string) writer_call, nat) connection)
        [Forward 1 None, Forward 2 None, Receive ''5''])
     = Some [WriterWrite 1 ''5'']"
  by (simp add: createConnection_def new_reader_def forward_def listen_def replay_Nil
        readMessage_def forward_listener_def)

section \<open>Properties of the writer\<close>









section \<open>Properties of the plugin channel\<close>

text \<open>
  C7. \<^verbatim>\<open>send(s)\<close> hands the connection's writer the message with \<^verbatim>\<open>jsonrpc\<close> \<open>''0.0''\<close> and
  \<^verbatim>\<open>content\<close> \<open>s\<close>; the listener that \<^verbatim>\<open>onMessage(cb)\<close> registers, applied to that message,
  calls \<open>cb\<close> on \<open>s\<close> itself. The same holds message by message for a sequence of sends.
\<close>

theorem envelope_round_trip:
  "PluginWebSocketChannel_send s = \<lparr>jsonrpc = ''0.0'', content = s\<rparr>
   \<and> PluginWebSocketChannel_onMessage cb (PluginWebSocketChannel_send s) = cb s
   \<and> map (PluginWebSocketChannel_onMessage cb) (map PluginWebSocketChannel_send ss) = map cb ss"
  by (simp add: PluginWebSocketChannel_send_def PluginWebSocketChannel_onMessage_def)

section \<open>Closing a connection\<close>

lemma close_all_empty:
  "disposables (disposeOnClose c) = [] \<Longrightarrow> close_all c closes = (c, [])"
proof (induction closes)
  case Nil
  then show ?case by simp
next
  case (Cons x xs)
  have "c\<lparr>disposeOnClose := (disposeOnClose c)\<lparr>disposables := []\<rparr>\<rparr> = c"
    using Cons.prems by (cases c) simp
  then have "close_connection c x = (c, [])"
    using Cons.prems
    by (cases x) (simp_all add: reader_onClose_def writer_onClose_def DisposableCollection_dispose_def)
  then show ?case using Cons by simp
qed

lemma close_all_first:
  "closes \<noteq> [] \<Longrightarrow>
   close_all c closes
     = (c\<lparr>disposeOnClose := (disposeOnClose c)\<lparr>disposables := []\<rparr>\<rparr>, disposables (disposeOnClose c))"
proof (cases closes)
  case Nil
  assume "closes \<noteq> []"
  with Nil show ?thesis by simp
next
  case (Cons x xs)
  let ?c' = "c\<lparr>disposeOnClose := (disposeOnClose c)\<lparr>disposables := []\<rparr>\<rparr>"
  have st: "close_connection c x = (?c', disposables (disposeOnClose c))"
    by (cases x) (simp_all add: reader_onClose_def writer_onClose_def DisposableCollection_dispose_def)
  have "close_all ?c' xs = (?c', [])"
    by (rule close_all_empty) simp
  then show ?thesis using Cons st by simp
qed

lemma disposables_foldl_onClose:
  "disposables (disposeOnClose (foldl onClose c cbs)) = disposables (disposeOnClose c) @ cbs"
  by (induction cbs arbitrary: c) (simp_all add: onClose_def DisposableCollection_push_def)

text \<open>
  C8. On a connection made by \<^verbatim>\<open>createConnection\<close>, the callbacks \<open>cbs\<close> are registered
  with \<^verbatim>\<open>onClose\<close>; then the reader and the writer signal closure, any number of times (at
  least once) and in any order. The callbacks invoked are those of \<open>cbs\<close>, each as many
  times as it was registered: once when registered once.
\<close>

theorem onClose_callbacks_fire_once:
  assumes "closes \<noteq> []"
  shows "mset (snd (close_all (foldl onClose (createConnection r w) cbs) closes)) = mset cbs"
  using assms
  by (simp add: close_all_first disposables_foldl_onClose createConnection_def
        DisposableCollection_new_def)

theorem onClose_callbacks_fire_once_witness:
  "[ReaderClose, WriterClose] \<noteq> []
   \<and> mset (snd (close_all (foldl onClose (createConnection (new_reader :: nat reader) new_writer)
        [1::nat, 2]) [ReaderClose, WriterClose])) = mset [1, 2]
   \<and> [WriterClose, ReaderClose] \<noteq> []
   \<and> mset (snd (close_all (foldl onClose (createConnection (new_reader :: nat reader) new_writer)
        [1::nat, 2]) [WriterClose, ReaderClose])) = mset [1, 2]"
proof -
  have h1: "[ReaderClose, WriterClose] \<noteq> []" by simp
  have h2: "[WriterClose, ReaderClose] \<noteq> []" by simp
  show ?thesis
    using h1 h2 onClose_callbacks_fire_once [OF h1, of "new_reader :: nat reader" new_writer "[1::nat, 2]"]
      onClose_callbacks_fire_once [OF h2, of "new_reader :: nat reader" new_writer "[1::nat, 2]"]
    by blast
qed

end
